theory Spec2Isabelle
  imports Complex_Main
begin

section \<open>The PIN pad of src/components/ui/PinPad.tsx\<close>

text \<open>
  The component owns no buffer: the caller passes \<open>value\<close> and the callbacks, and the
  component answers every event with calls to the outside. The model makes those calls
  the result of each function, as a list in the order in which the source performs them.
  Caller-supplied functions are compared by identity in dependency lists, so a function
  is modelled by its identity, a number.
\<close>

subsection \<open>Props and calls\<close>

datatype pin_type = Error | Success

type_synonym callback = nat

text \<open>
  \<open>OwnProps & StateProps\<close>. An optional prop is an \<open>option\<close>, with \<open>None\<close> for
  \<open>undefined\<close>. The props \<open>type\<close>, \<open>value\<close> and \<open>length\<close> carry the suffix \<open>_p\<close>.
  \<open>title\<close>, \<open>className\<close> and \<open>isMinified\<close> only reach the markup and are left out.
  \<open>length\<close> is a \<open>number\<close>, which need not be whole: it is a real here, and the
  comparison \<open>value.length === length\<close> is the equality of the string's length, as a
  real, with it. The delay is kept in whole milliseconds, as the browser's timers do.
\<close>

record props =
  isActive :: "bool option"
  type_p :: "pin_type option"
  value_p :: string
  length_p :: "real option"
  resetStateDelayMs :: "int option"
  isPinAccepted :: "bool option"
  onBiometricsClick :: "callback option"
  onChange :: callback
  onClearError :: "callback option"
  onSubmit :: callback

text \<open>Everything the component does to the outside.\<close>

datatype call =
    OnChange callback string
  | OnSubmit callback string
  | OnClearError callback
  | OnBiometricsClick callback
  | ClearIsPinAccepted
  | VibrateOnError
  | SetTimeout nat int
  | ClearTimeout nat
  | DisableSwipeToClose
  | EnableSwipeToClose
  | ClearScrollPatch
  | ApplyScrollPatch

definition DEFAULT_PIN_LENGTH :: real where
  "DEFAULT_PIN_LENGTH = 4"

definition RESET_STATE_DELAY_MS :: int where
  "RESET_STATE_DELAY_MS = 1500"

text \<open>The destructuring defaults \<open>length = DEFAULT_PIN_LENGTH\<close> and
  \<open>resetStateDelayMs = RESET_STATE_DELAY_MS\<close>: they apply to \<open>undefined\<close> only.\<close>

definition length_of :: "props \<Rightarrow> real" where
  "length_of p = (case length_p p of None \<Rightarrow> DEFAULT_PIN_LENGTH | Some n \<Rightarrow> n)"

definition resetStateDelayMs_of :: "props \<Rightarrow> int" where
  "resetStateDelayMs_of p =
     (case resetStateDelayMs p of None \<Rightarrow> RESET_STATE_DELAY_MS | Some n \<Rightarrow> n)"

text \<open>JavaScript truthiness of an optional boolean: only \<open>true\<close> is truthy.\<close>

definition truthy :: "bool option \<Rightarrow> bool" where
  "truthy b = (b = Some True)"

subsection \<open>Values derived on every render\<close>

definition canRenderBackspace :: "props \<Rightarrow> bool" where
  "canRenderBackspace p = (length (value_p p) > 0)"

definition isSuccess :: "props \<Rightarrow> bool" where
  "isSuccess p = (type_p p = Some Success \<or> truthy (isPinAccepted p))"

definition arePinButtonsDisabled :: "props \<Rightarrow> bool" where
  "arePinButtonsDisabled p =
     (isSuccess p \<or> (real (length (value_p p)) = length_of p \<and> type_p p \<noteq> Some Error))"

subsection \<open>The handlers\<close>

text \<open>\<open>onClearError?.()\<close>: a call when the caller passed the callback, nothing otherwise.\<close>

definition onClearError_opt :: "props \<Rightarrow> call list" where
  "onClearError_opt p = (case onClearError p of None \<Rightarrow> [] | Some f \<Rightarrow> [OnClearError f])"

definition handleClick :: "props \<Rightarrow> string \<Rightarrow> call list" where
  "handleClick p char =
     (if real (length (value_p p)) = length_of p \<or> length (value_p p) = 0
      then onClearError_opt p else []) @
     (if real (length (value_p p)) = length_of p then [OnChange (onChange p) char]
      else
        (let newValue = value_p p @ char in
         OnChange (onChange p) newValue #
         (if real (length newValue) = length_of p then [OnSubmit (onSubmit p) newValue]
          else [])))"

text \<open>\<open>value.slice(0, -1)\<close> on a string that is not empty drops its last character.\<close>

definition handleBackspaceClick :: "props \<Rightarrow> call list" where
  "handleBackspaceClick p =
     onClearError_opt p @
     (if length (value_p p) = 0 then []
      else [OnChange (onChange p) (butlast (value_p p))])"

subsection \<open>The button grid\<close>

text \<open>
  The \<open>onClick\<close> prop of a button is one of the two handlers or the caller's
  \<open>onBiometricsClick\<close>. The grid is the list of the twelve cells in the order of the
  markup; the cell of the biometric button is an empty \<open>span\<close> when the caller passed
  no \<open>onBiometricsClick\<close>.
\<close>

datatype handler = HandleClick | HandleBackspaceClick | BiometricsClick callback

datatype cell = PinPadButton "string option" handler bool | Span

definition digitButton :: "props \<Rightarrow> string \<Rightarrow> cell" where
  "digitButton p v = PinPadButton (Some v) HandleClick (arePinButtonsDisabled p)"

definition grid :: "props \<Rightarrow> cell list" where
  "grid p =
     [digitButton p ''1'', digitButton p ''2'', digitButton p ''3'',
      digitButton p ''4'', digitButton p ''5'', digitButton p ''6'',
      digitButton p ''7'', digitButton p ''8'', digitButton p ''9'',
      (case onBiometricsClick p of
         None \<Rightarrow> Span
       | Some f \<Rightarrow> PinPadButton None (BiometricsClick f) (isSuccess p)),
      digitButton p ''0'',
      PinPadButton None HandleBackspaceClick (\<not> canRenderBackspace p \<or> isSuccess p)]"

text \<open>
  Modelled from the spec: \<open>PinPadButton\<close> (\<open>./PinPadButton\<close>) is not among the sources.
  The spec has a disabled button take no input ("disable all digit/backspace input;
  biometric button also disabled", "input fully gated"): a press on a disabled button
  calls nothing, a press on an enabled one calls \<open>onClick\<close> with the button's \<open>value\<close>.
  A button without \<open>value\<close> passes \<open>undefined\<close>, which the template literal of
  \<open>handleClick\<close> would print as the word.
\<close>

definition invoke :: "props \<Rightarrow> handler \<Rightarrow> string option \<Rightarrow> call list" where
  "invoke p h v =
     (case h of
        HandleClick \<Rightarrow> handleClick p (case v of None \<Rightarrow> ''undefined'' | Some c \<Rightarrow> c)
      | HandleBackspaceClick \<Rightarrow> handleBackspaceClick p
      | BiometricsClick f \<Rightarrow> [OnBiometricsClick f])"

fun press :: "props \<Rightarrow> cell \<Rightarrow> call list" where
  "press p Span = []"
| "press p (PinPadButton v h disabled) = (if disabled then [] else invoke p h v)"

text \<open>The \<open>isDisabled\<close> prop of a cell; the empty \<open>span\<close> has none.\<close>

fun isDisabled :: "cell \<Rightarrow> bool" where
  "isDisabled (PinPadButton v h disabled) = disabled"
| "isDisabled Span = False"

fun isDigitButton :: "cell \<Rightarrow> bool" where
  "isDigitButton (PinPadButton (Some v) HandleClick disabled) = True"
| "isDigitButton c = False"

subsection \<open>The caller's buffer\<close>

text \<open>
  Modelled from the spec: the callers of the component are not among the sources. The
  spec has the caller own the buffer and the control issue "replace-whole-buffer
  requests": the caller answers \<open>onChange(v)\<close> by making \<open>v\<close> the buffer, and no other
  call changes it.
\<close>

fun requested :: "string \<Rightarrow> call \<Rightarrow> string" where
  "requested buffer (OnChange f v) = v"
| "requested buffer c = buffer"

definition buffer_after :: "string \<Rightarrow> call list \<Rightarrow> string" where
  "buffer_after buffer cs = foldl requested buffer cs"

text \<open>A run of digit presses that all reach \<open>handleClick\<close>, each on the buffer the
  calls of the one before have left: the calls made, and the buffer at the end.\<close>

fun presses :: "props \<Rightarrow> string list \<Rightarrow> call list" where
  "presses p [] = []"
| "presses p (char # chars) =
     handleClick p char @
     presses (p\<lparr>value_p := buffer_after (value_p p) (handleClick p char)\<rparr>) chars"


subsection \<open>The effects\<close>

text \<open>
  The browser's timers: \<open>window.setTimeout\<close> hands out a fresh id and keeps the
  callback until the delay has passed or \<open>window.clearTimeout\<close> drops it. The callback
  is a closure over the props of the render that armed it, so the timer keeps those.
  Time is a counter of milliseconds.
\<close>

record timer =
  timeoutId :: nat
  armedAt :: int
  delay :: int
  closure :: props

text \<open>What the hooks of one mounted component remember between renders: the props of
  the last render (the memoised dependency lists and the handlers of \<open>useLastCallback\<close>
  are computed from them), what \<open>usePrevious\<close> returned in it, and the cleanups that the
  effects returned.\<close>

record pinpad =
  rendered :: props
  prevIsPinAccepted :: "bool option"
  timerCleanup :: "nat option"
  swipeCleanup :: bool

record window =
  component :: "pinpad option"
  timers :: "timer list"
  nextTimeoutId :: nat
  now :: int

definition setTimeout :: "window \<Rightarrow> props \<Rightarrow> int \<Rightarrow> window \<times> nat" where
  "setTimeout w p ms =
     (w\<lparr>timers := timers w @
            [\<lparr>timeoutId = nextTimeoutId w, armedAt = now w, delay = ms, closure = p\<rparr>],
         nextTimeoutId := Suc (nextTimeoutId w)\<rparr>,
      nextTimeoutId w)"

definition clearTimeout :: "window \<Rightarrow> nat \<Rightarrow> window" where
  "clearTimeout w i = w\<lparr>timers := filter (\<lambda>t. timeoutId t \<noteq> i) (timers w)\<rparr>"

text \<open>The effect on the accepted flag (lines 74 to 78) and its dependency list.\<close>

definition acceptedEffect :: "bool option \<Rightarrow> props \<Rightarrow> call list" where
  "acceptedEffect prev p =
     (if truthy prev \<and> \<not> truthy (isPinAccepted p) \<and> length_of p = real (length (value_p p))
      then [OnChange (onChange p) ''''] else [])"

definition acceptedDeps ::
  "bool option \<Rightarrow> props \<Rightarrow> bool option \<times> real \<times> callback \<times> bool option \<times> nat" where
  "acceptedDeps prev p =
     (isPinAccepted p, length_of p, onChange p, prev, length (value_p p))"

text \<open>The scroll patch (lines 88 to 95); \<open>IS_DELEGATED_BOTTOM_SHEET\<close> is a constant of
  \<open>util/windowEnvironment\<close>, taken as a parameter.\<close>

definition scrollPatchEffect :: "bool \<Rightarrow> bool option \<Rightarrow> props \<Rightarrow> call list" where
  "scrollPatchEffect IS_DELEGATED_BOTTOM_SHEET prevIsActive p =
     (if \<not> IS_DELEGATED_BOTTOM_SHEET then []
      else if truthy (isActive p) then [ClearScrollPatch]
      else if truthy prevIsActive then [ApplyScrollPatch]
      else [])"

text \<open>The error timer (lines 97 to 111): the callback of the timer, the effect, which
  returns the id for its cleanup, the cleanup, and the dependency list.\<close>

definition errorTimerCallback :: "props \<Rightarrow> call list" where
  "errorTimerCallback p =
     (if real (length (value_p p)) = length_of p then [OnChange (onChange p) ''''] else []) @
     onClearError_opt p"

definition errorTimerEffect :: "window \<Rightarrow> props \<Rightarrow> window \<times> nat option \<times> call list" where
  "errorTimerEffect w p =
     (if type_p p \<noteq> Some Error then (w, None, [])
      else
        (let (w', i) = setTimeout w p (resetStateDelayMs_of p)
         in (w', Some i, [SetTimeout i (resetStateDelayMs_of p), VibrateOnError])))"

definition errorTimerCleanup :: "window \<Rightarrow> nat option \<Rightarrow> window \<times> call list" where
  "errorTimerCleanup w cleanup =
     (case cleanup of None \<Rightarrow> (w, []) | Some i \<Rightarrow> (clearTimeout w i, [ClearTimeout i]))"

definition errorTimerDeps ::
  "props \<Rightarrow> real \<times> callback \<times> callback option \<times> int \<times> pin_type option \<times> nat" where
  "errorTimerDeps p =
     (length_of p, onChange p, onClearError p, resetStateDelayMs_of p, type_p p,
      length (value_p p))"

text \<open>The swipe lock (lines 113 to 121): the calls, and whether a cleanup is returned.\<close>

definition swipeEffect :: "props \<Rightarrow> bool \<times> call list" where
  "swipeEffect p =
     (if \<not> truthy (isActive p) then (False, []) else (True, [DisableSwipeToClose]))"

definition swipeCleanup_run :: "bool \<Rightarrow> call list" where
  "swipeCleanup_run cleanup = (if cleanup then [EnableSwipeToClose] else [])"

subsection \<open>Mounting, rendering again, unmounting\<close>

text \<open>
  Modelled from the spec: \<open>useEffect\<close>, \<open>usePrevious\<close>, \<open>useEffectWithPrevDeps\<close> and
  \<open>useLastCallback\<close> (\<open>lib/teact\<close>, \<open>hooks\<close>) are not among the sources. The spec has
  an effect "cancel-then-possibly-rearm on dependency change", with "guaranteed
  cancellation on both dependency change and teardown", not re-armed on a render with
  identical inputs, and the snapshot hold "the previous render's accepted value". So:
  the first render runs every effect; a later render runs, in the order of the source,
  each effect of which a dependency differs from the render before, its cleanup first;
  unmounting runs the cleanups; \<open>usePrevious\<close> returns \<open>undefined\<close> in the first render
  and the value of the render before afterwards; the handlers see the props of the
  last render.
\<close>

definition mount :: "bool \<Rightarrow> window \<Rightarrow> props \<Rightarrow> window \<times> call list" where
  "mount IS_DELEGATED_BOTTOM_SHEET w p =
     (let c1 = acceptedEffect None p;
          c3 = scrollPatchEffect IS_DELEGATED_BOTTOM_SHEET None p;
          (w4, cleanup4, c4) = errorTimerEffect w p;
          (cleanup5, c5) = swipeEffect p
      in (w4\<lparr>component := Some \<lparr>rendered = p, prevIsPinAccepted = None,
                                timerCleanup = cleanup4, swipeCleanup = cleanup5\<rparr>\<rparr>,
          c1 @ c3 @ c4 @ c5))"

definition update :: "bool \<Rightarrow> window \<Rightarrow> pinpad \<Rightarrow> props \<Rightarrow> window \<times> call list" where
  "update IS_DELEGATED_BOTTOM_SHEET w h p =
     (let q = rendered h;
          prev = isPinAccepted q;
          c1 = (if acceptedDeps prev p \<noteq> acceptedDeps (prevIsPinAccepted h) q
                then acceptedEffect prev p else []);
          c3 = (if isActive p \<noteq> isActive q
                then scrollPatchEffect IS_DELEGATED_BOTTOM_SHEET (isActive q) p else []);
          (w4, cleanup4, c4) =
            (if errorTimerDeps p \<noteq> errorTimerDeps q
             then (let (w', cc) = errorTimerCleanup w (timerCleanup h);
                       (w'', cleanup, ce) = errorTimerEffect w' p
                   in (w'', cleanup, cc @ ce))
             else (w, timerCleanup h, []));
          (cleanup5, c5) =
            (if isActive p \<noteq> isActive q
             then (let (cleanup, ce) = swipeEffect p
                   in (cleanup, swipeCleanup_run (swipeCleanup h) @ ce))
             else (swipeCleanup h, []))
      in (w4\<lparr>component := Some \<lparr>rendered = p, prevIsPinAccepted = prev,
                                timerCleanup = cleanup4, swipeCleanup = cleanup5\<rparr>\<rparr>,
          c1 @ c3 @ c4 @ c5))"

text \<open>The cleanup of the effect of lines 80 to 85 calls \<open>clearIsPinAccepted\<close>.\<close>

definition unmount :: "window \<Rightarrow> pinpad \<Rightarrow> window \<times> call list" where
  "unmount w h =
     (let (w4, c4) = errorTimerCleanup w (timerCleanup h)
      in (w4\<lparr>component := None\<rparr>,
          [ClearIsPinAccepted] @ c4 @ swipeCleanup_run (swipeCleanup h)))"

subsection \<open>Events\<close>

text \<open>
  What can happen to the page: the caller renders the component (the first time mounts
  it), the user presses the cell of the grid at a position, a timer is due and the
  browser runs it, time passes, the caller unmounts the component. A timer runs only
  once its delay has passed since it was armed, and is gone afterwards.
\<close>

datatype event = Render props | Press nat | TimerFires nat | Elapse nat | Unmount

definition fire :: "window \<Rightarrow> nat \<Rightarrow> window \<times> call list" where
  "fire w i =
     (case find (\<lambda>t. timeoutId t = i) (timers w) of
        None \<Rightarrow> (w, [])
      | Some t \<Rightarrow>
          (if armedAt t + delay t \<le> now w
           then (clearTimeout w i, errorTimerCallback (closure t))
           else (w, [])))"

definition pressAt :: "props \<Rightarrow> nat \<Rightarrow> call list" where
  "pressAt p i = (if i < length (grid p) then press p (grid p ! i) else [])"

fun step :: "bool \<Rightarrow> window \<Rightarrow> event \<Rightarrow> window \<times> call list" where
  "step d w (Render p) =
     (case component w of None \<Rightarrow> mount d w p | Some h \<Rightarrow> update d w h p)"
| "step d w (Press i) =
     (case component w of None \<Rightarrow> (w, []) | Some h \<Rightarrow> (w, pressAt (rendered h) i))"
| "step d w (TimerFires i) = fire w i"
| "step d w (Elapse ms) = (w\<lparr>now := now w + int ms\<rparr>, [])"
| "step d w Unmount =
     (case component w of None \<Rightarrow> (w, []) | Some h \<Rightarrow> unmount w h)"

fun run :: "bool \<Rightarrow> window \<Rightarrow> event list \<Rightarrow> window \<times> call list" where
  "run d w [] = (w, [])"
| "run d w (e # es) =
     (let (w1, c1) = step d w e; (w2, c2) = run d w1 es in (w2, c1 @ c2))"

definition page :: window where
  "page = \<lparr>component = None, timers = [], nextTimeoutId = 0, now = 0\<rparr>"

subsection \<open>Reading a list of calls\<close>

fun isOnSubmit :: "call \<Rightarrow> bool" where
  "isOnSubmit (OnSubmit f v) = True"
| "isOnSubmit c = False"

fun isOnChange :: "call \<Rightarrow> bool" where
  "isOnChange (OnChange f v) = True"
| "isOnChange c = False"

fun isOnClearError :: "call \<Rightarrow> bool" where
  "isOnClearError (OnClearError f) = True"
| "isOnClearError c = False"

fun isSetTimeout :: "call \<Rightarrow> bool" where
  "isSetTimeout (SetTimeout i ms) = True"
| "isSetTimeout c = False"

fun isClearTimeout :: "call \<Rightarrow> bool" where
  "isClearTimeout (ClearTimeout i) = True"
| "isClearTimeout c = False"

definition timerCalls :: "call list \<Rightarrow> call list" where
  "timerCalls cs = filter (\<lambda>c. isSetTimeout c \<or> isClearTimeout c) cs"

fun isRender :: "event \<Rightarrow> bool" where
  "isRender (Render p) = True"
| "isRender e = False"

subsection \<open>Reachable pages\<close>

text \<open>The page after a list of events, from the page on which nothing is mounted and
  no timer is armed.\<close>

definition after :: "bool \<Rightarrow> event list \<Rightarrow> window" where
  "after d es = fst (run d page es)"

text \<open>
  What holds of the timers of every reachable page: none is armed, or one is, and then
  the component is mounted, the cleanup of its effect holds the timer's id, the timer was
  armed with the dependencies of the last render, in which \<open>type\<close> was \<open>error\<close>, for
  its \<open>resetStateDelayMs\<close>, and not in the future.
\<close>

definition timers_ok :: "window \<Rightarrow> bool" where
  "timers_ok w =
     (case timers w of
        [] \<Rightarrow> True
      | [t] \<Rightarrow>
          (case component w of
             None \<Rightarrow> False
           | Some h \<Rightarrow>
               timerCleanup h = Some (timeoutId t) \<and>
               errorTimerDeps (closure t) = errorTimerDeps (rendered h) \<and>
               type_p (rendered h) = Some Error \<and>
               delay t = resetStateDelayMs_of (rendered h) \<and>
               armedAt t \<le> now w)
      | t # t' # ts \<Rightarrow> False)"

text \<open>
  The ids of the armed timers have all been handed out by \<open>setTimeout\<close>. A timer id is
  spent on a page when it has been handed out and no timer with it is armed: the timer
  has fired or has been cleared.
\<close>

definition handed_out :: "window \<Rightarrow> bool" where
  "handed_out w = list_all (\<lambda>t. timeoutId t < nextTimeoutId w) (timers w)"

definition spent :: "nat \<Rightarrow> window \<Rightarrow> bool" where
  "spent i w = (i < nextTimeoutId w \<and> find (\<lambda>t. timeoutId t = i) (timers w) = None)"

subsection \<open>The submission policy in the words of the spec\<close>

text \<open>
  The spec's table: a digit on a buffer shorter than \<open>N\<close> is appended, a digit on a
  buffer of length \<open>N\<close> starts a new buffer, and a buffer is completed by the press that
  takes it from length \<open>N - 1\<close> to length \<open>N\<close>. The buffers completed by a run of presses,
  in order.
\<close>

fun completed_buffers :: "real \<Rightarrow> string \<Rightarrow> string list \<Rightarrow> string list" where
  "completed_buffers N buffer [] = []"
| "completed_buffers N buffer (char # chars) =
     (if real (length buffer) = N - 1 then [buffer @ char] else []) @
     completed_buffers N (if real (length buffer) = N then char else buffer @ char) chars"

subsection \<open>Props for the examples\<close>

text \<open>A caller that passes the three callbacks and leaves every optional prop out: an
  empty buffer, four digits, 1500 ms.\<close>

abbreviation plain :: props where
  "plain \<equiv> \<lparr>isActive = None, type_p = None, value_p = [], length_p = None,
     resetStateDelayMs = None, isPinAccepted = None, onBiometricsClick = None,
     onChange = 1, onClearError = Some 2, onSubmit = 3\<rparr>"

text \<open>The same caller showing an error on a full buffer, and what the hooks remember
  after mounting the component with those props on the empty page.\<close>

abbreviation wrong :: props where
  "wrong \<equiv> plain\<lparr>type_p := Some Error, value_p := ''7391''\<rparr>"

abbreviation wrong_hooks :: pinpad where
  "wrong_hooks \<equiv> \<lparr>rendered = wrong, prevIsPinAccepted = None, timerCleanup = Some 0,
     swipeCleanup = False\<rparr>"

section \<open>Properties\<close>

subsection \<open>Calls of the handlers and of a render\<close>

lemma length_of_value [simp]: "length_of (p\<lparr>value_p := v\<rparr>) = length_of p"
  by (simp add: length_of_def)

lemma handleClick_submits:
  "length c = 1 \<Longrightarrow> filter isOnSubmit (handleClick p c) =
     (if real (length (value_p p)) = length_of p - 1
      then [OnSubmit (onSubmit p) (value_p p @ c)] else [])"
  by (auto simp: handleClick_def onClearError_opt_def Let_def split: option.splits)

lemma handleClick_buffer:
  "buffer_after b (handleClick p c) =
     (if real (length (value_p p)) = length_of p then c else value_p p @ c)"
  by (auto simp: handleClick_def onClearError_opt_def Let_def buffer_after_def
      split: option.splits)

lemma presses_submits:
  "\<forall>c\<in>set chars. length c = 1 \<Longrightarrow>
   filter isOnSubmit (presses p chars) =
     map (OnSubmit (onSubmit p)) (completed_buffers (length_of p) (value_p p) chars)"
proof (induction chars arbitrary: p)
  case Nil
  show ?case by simp
next
  case (Cons c chars)
  have one: "length c = 1" and rest: "\<forall>c\<in>set chars. length c = 1"
    using Cons.prems by simp_all
  show ?case
    using Cons.IH [OF rest, of "p\<lparr>value_p := buffer_after (value_p p) (handleClick p c)\<rparr>"]
    by (simp add: handleClick_submits [OF one] handleClick_buffer)
qed

lemma completed_buffers_full:
  "\<forall>c\<in>set chars. length c = 1 \<Longrightarrow>
   \<forall>b\<in>set (completed_buffers N buffer chars). real (length b) = N"
  by (induction chars arbitrary: buffer) auto

lemma errorTimerEffect_calls:
  "snd (snd (errorTimerEffect w p)) =
     (if type_p p = Some Error
      then [SetTimeout (nextTimeoutId w) (resetStateDelayMs_of p), VibrateOnError] else [])"
  by (simp add: errorTimerEffect_def setTimeout_def)

lemma errorTimerCleanup_calls:
  "snd (errorTimerCleanup w c) = (case c of None \<Rightarrow> [] | Some i \<Rightarrow> [ClearTimeout i])"
  by (simp add: errorTimerCleanup_def split: option.splits)

lemma mount_calls:
  "snd (mount d w p) =
     acceptedEffect None p @ scrollPatchEffect d None p @
     snd (snd (errorTimerEffect w p)) @ snd (swipeEffect p)"
  by (simp add: mount_def Let_def split: prod.splits)

lemma update_calls:
  "snd (update d w h p) =
     (if acceptedDeps (isPinAccepted (rendered h)) p
           \<noteq> acceptedDeps (prevIsPinAccepted h) (rendered h)
      then acceptedEffect (isPinAccepted (rendered h)) p else []) @
     (if isActive p \<noteq> isActive (rendered h)
      then scrollPatchEffect d (isActive (rendered h)) p else []) @
     (if errorTimerDeps p \<noteq> errorTimerDeps (rendered h)
      then snd (errorTimerCleanup w (timerCleanup h)) @
           snd (snd (errorTimerEffect (fst (errorTimerCleanup w (timerCleanup h))) p))
      else []) @
     (if isActive p \<noteq> isActive (rendered h)
      then swipeCleanup_run (swipeCleanup h) @ snd (swipeEffect p) else [])"
  by (simp add: update_def Let_def split: prod.splits)

lemma render_no_submit: "filter isOnSubmit (snd (step d w (Render p))) = []"
  by (simp add: mount_calls update_calls errorTimerEffect_calls errorTimerCleanup_calls
      acceptedEffect_def scrollPatchEffect_def swipeEffect_def swipeCleanup_run_def
      split: option.splits)

text \<open>Every button of the grid that carries a value carries one character, a digit.\<close>

lemma grid_values:
  "PinPadButton (Some v) h b \<in> set (grid p) \<Longrightarrow>
   \<exists>d. v = [d] \<and> d \<in> set ''1234567890''"
  by (auto simp: grid_def digitButton_def split: option.splits)

subsection \<open>The buffer under digit presses\<close>



lemma handleClick_full:
  "real (length (value_p p)) = length_of p \<Longrightarrow>
   handleClick p c = onClearError_opt p @ [OnChange (onChange p) c]"
  by (simp add: handleClick_def)


text \<open>What \<open>handleBackspaceClick\<close> would do on an empty buffer if it were called: it
  requests no buffer. Its only caller is the backspace button.\<close>

lemma handleBackspaceClick_empty:
  "value_p p = [] \<Longrightarrow> handleBackspaceClick p = onClearError_opt p"
  by (simp add: handleBackspaceClick_def)

lemma buffer_after_requests: "buffer_after b cs = buffer_after b (filter isOnChange cs)"
  unfolding buffer_after_def
proof (induction cs arbitrary: b)
  case Nil
  show ?case by simp
next
  case (Cons c cs)
  show ?case using Cons.IH by (cases c) simp_all
qed

subsection \<open>The timers of a reachable page\<close>

lemma timers_ok_cases:
  "timers_ok w \<Longrightarrow>
   timers w = [] \<or>
   (\<exists>t h. timers w = [t] \<and> component w = Some h \<and> timerCleanup h = Some (timeoutId t) \<and>
      errorTimerDeps (closure t) = errorTimerDeps (rendered h) \<and>
      type_p (rendered h) = Some Error \<and> delay t = resetStateDelayMs_of (rendered h) \<and>
      armedAt t \<le> now w)"
  by (auto simp: timers_ok_def split: list.splits option.splits)

lemma timers_ok_page: "timers_ok page"
  by (simp add: timers_ok_def page_def)

lemma timers_ok_mount:
  assumes "timers_ok w" "component w = None"
  shows "timers_ok (fst (mount d w p))"
  using timers_ok_cases [OF assms(1)] assms(2)
  by (auto simp: mount_def Let_def errorTimerEffect_def setTimeout_def timers_ok_def
      split: prod.splits)

lemma errorTimerEffect_eq:
  "errorTimerEffect w p =
     (if type_p p \<noteq> Some Error then (w, None, [])
      else (w\<lparr>timers := timers w @
                [\<lparr>timeoutId = nextTimeoutId w, armedAt = now w,
                  delay = resetStateDelayMs_of p, closure = p\<rparr>],
              nextTimeoutId := Suc (nextTimeoutId w)\<rparr>,
            Some (nextTimeoutId w),
            [SetTimeout (nextTimeoutId w) (resetStateDelayMs_of p), VibrateOnError]))"
  by (simp add: errorTimerEffect_def setTimeout_def)

lemma errorTimerCleanup_fst:
  "fst (errorTimerCleanup w c) = (case c of None \<Rightarrow> w | Some i \<Rightarrow> clearTimeout w i)"
  by (simp add: errorTimerCleanup_def split: option.splits)

lemma cleanup_clears:
  assumes "timers_ok w" "component w = Some h"
  shows "timers (fst (errorTimerCleanup w (timerCleanup h))) = []"
  using timers_ok_cases [OF assms(1)] assms(2)
  by (auto simp: errorTimerCleanup_fst clearTimeout_def split: option.splits)

lemma cleanup_keeps:
  "component (fst (errorTimerCleanup w c)) = component w
   \<and> now (fst (errorTimerCleanup w c)) = now w
   \<and> nextTimeoutId (fst (errorTimerCleanup w c)) = nextTimeoutId w"
  by (simp add: errorTimerCleanup_fst clearTimeout_def split: option.splits)

lemma update_window:
  "fst (update d w h p) =
     (if errorTimerDeps p \<noteq> errorTimerDeps (rendered h)
      then fst (errorTimerEffect (fst (errorTimerCleanup w (timerCleanup h))) p)
      else w)
     \<lparr>component := Some
        \<lparr>rendered = p, prevIsPinAccepted = isPinAccepted (rendered h),
         timerCleanup =
           (if errorTimerDeps p \<noteq> errorTimerDeps (rendered h)
            then fst (snd (errorTimerEffect (fst (errorTimerCleanup w (timerCleanup h))) p))
            else timerCleanup h),
         swipeCleanup =
           (if isActive p \<noteq> isActive (rendered h) then fst (swipeEffect p)
            else swipeCleanup h)\<rparr>\<rparr>"
  by (simp add: update_def Let_def split: prod.splits)

lemma timers_ok_update:
  assumes "timers_ok w" "component w = Some h"
  shows "timers_ok (fst (update d w h p))"
proof (cases "errorTimerDeps p = errorTimerDeps (rendered h)")
  case True
  then show ?thesis
    using timers_ok_cases [OF assms(1)] assms(2)
    by (auto simp: update_window timers_ok_def errorTimerDeps_def)
next
  case False
  then show ?thesis
    using cleanup_clears [OF assms] cleanup_keeps [of w "timerCleanup h"]
    by (simp add: update_window errorTimerEffect_eq timers_ok_def)
qed

lemma timers_ok_fire:
  assumes "timers_ok w"
  shows "timers_ok (fst (fire w i))"
  using timers_ok_cases [OF assms]
  by (auto simp: fire_def clearTimeout_def timers_ok_def split: option.splits)

lemma timers_ok_unmount:
  assumes "timers_ok w" "component w = Some h"
  shows "timers_ok (fst (unmount w h))"
  using timers_ok_cases [OF assms(1)] assms(2)
  by (auto simp: unmount_def errorTimerCleanup_def clearTimeout_def timers_ok_def
      split: prod.splits option.splits)

lemma timers_ok_step: "timers_ok w \<Longrightarrow> timers_ok (fst (step d w e))"
proof (cases e)
  case (Render p)
  assume "timers_ok w"
  then show ?thesis using Render
    by (cases "component w") (simp_all add: timers_ok_mount timers_ok_update)
next
  case (Press i)
  assume "timers_ok w"
  then show ?thesis using Press by (cases "component w") simp_all
next
  case (TimerFires i)
  assume "timers_ok w"
  then show ?thesis using TimerFires by (simp add: timers_ok_fire)
next
  case (Elapse ms)
  assume "timers_ok w"
  then show ?thesis using Elapse
    by (auto simp: timers_ok_def split: list.splits option.splits)
next
  case Unmount
  assume "timers_ok w"
  then show ?thesis using Unmount
    by (cases "component w") (simp_all add: timers_ok_unmount)
qed

lemma timers_ok_run: "timers_ok w \<Longrightarrow> timers_ok (fst (run d w es))"
proof (induction es arbitrary: w)
  case Nil
  then show ?case by simp
next
  case (Cons e es)
  have "timers_ok (fst (run d (fst (step d w e)) es))"
    using Cons.IH timers_ok_step [OF Cons.prems] by blast
  then show ?case by (simp add: split_beta)
qed

lemma after_ok: "timers_ok (after d es)"
  by (simp add: after_def timers_ok_run timers_ok_page)

lemma mount_window:
  "fst (mount d w p) =
     (fst (errorTimerEffect w p))
     \<lparr>component := Some
        \<lparr>rendered = p, prevIsPinAccepted = None,
         timerCleanup = fst (snd (errorTimerEffect w p)),
         swipeCleanup = fst (swipeEffect p)\<rparr>\<rparr>"
  by (simp add: mount_def Let_def split: prod.splits)

lemma timers_at_most_one: "timers_ok w \<Longrightarrow> length (timers w) \<le> 1"
  using timers_ok_cases by fastforce


subsection \<open>The error effect on a render, the timer when it fires, unmounting\<close>

lemma same_deps_no_timer:
  assumes "component w = Some h" "errorTimerDeps p = errorTimerDeps (rendered h)"
  shows "timerCalls (snd (step d w (Render p))) = []
         \<and> count_list (snd (step d w (Render p))) VibrateOnError = 0
         \<and> timers (fst (step d w (Render p))) = timers w"
  using assms
  by (simp add: update_calls update_window timerCalls_def acceptedEffect_def
      scrollPatchEffect_def swipeEffect_def swipeCleanup_run_def)

lemma changed_deps_timer:
  assumes "timers_ok w" "component w = Some h" "errorTimerDeps p \<noteq> errorTimerDeps (rendered h)"
  shows "timerCalls (snd (step d w (Render p))) =
           (case timerCleanup h of None \<Rightarrow> [] | Some i \<Rightarrow> [ClearTimeout i]) @
           (if type_p p = Some Error
            then [SetTimeout (nextTimeoutId w) (resetStateDelayMs_of p)] else [])"
    and "count_list (snd (step d w (Render p))) VibrateOnError =
           (if type_p p = Some Error then 1 else 0)"
    and "timers (fst (step d w (Render p))) =
           (if type_p p = Some Error
            then [\<lparr>timeoutId = nextTimeoutId w, armedAt = now w,
                   delay = resetStateDelayMs_of p, closure = p\<rparr>]
            else [])"
  using assms(2,3) cleanup_clears [OF assms(1,2)] cleanup_keeps [of w "timerCleanup h"]
  by (simp_all add: update_calls update_window timerCalls_def acceptedEffect_def
      scrollPatchEffect_def swipeEffect_def swipeCleanup_run_def errorTimerEffect_eq
      errorTimerCleanup_calls split: option.splits)


lemma fire_ok:
  assumes "timers_ok w" "component w = Some h" "find (\<lambda>t. timeoutId t = i) (timers w) = Some t"
  shows "timers w = [t]" and "timeoutId t = i"
    and "type_p (rendered h) = Some Error"
    and "delay t = resetStateDelayMs_of (rendered h)"
    and "errorTimerCallback (closure t) = errorTimerCallback (rendered h)"
    and "timerCleanup h = Some i"
  using timers_ok_cases [OF assms(1)] assms(2,3)
  by (auto simp: errorTimerCallback_def errorTimerDeps_def onClearError_opt_def
      split: if_splits)

lemma quiet_run:
  "timers w = [] \<Longrightarrow> component w = None \<Longrightarrow> list_all (\<lambda>e. \<not> isRender e) es \<Longrightarrow>
   snd (run d w es) = []"
proof (induction es arbitrary: w)
  case Nil
  then show ?case by simp
next
  case (Cons e es)
  have e: "\<not> isRender e" and es: "list_all (\<lambda>e. \<not> isRender e) es"
    using Cons.prems(3) by simp_all
  have quiet: "snd (step d w e) = []"
    and still: "timers (fst (step d w e)) = []" "component (fst (step d w e)) = None"
    using e Cons.prems(1,2) by (cases e; simp add: fire_def)+
  show ?case using Cons.IH [OF still es] quiet by (simp add: split_beta)
qed

lemma unmount_eq:
  "unmount w h =
     ((fst (errorTimerCleanup w (timerCleanup h)))\<lparr>component := None\<rparr>,
      ClearIsPinAccepted #
      (case timerCleanup h of None \<Rightarrow> [] | Some i \<Rightarrow> [ClearTimeout i]) @
      swipeCleanup_run (swipeCleanup h))"
  by (simp add: unmount_def errorTimerCleanup_def split: option.splits)

subsection \<open>Timer ids are never used twice\<close>

lemma step_timers:
  "set (timers (fst (step d w e))) \<subseteq>
     set (timers w) \<union> {t. timeoutId t = nextTimeoutId w}
   \<and> nextTimeoutId w \<le> nextTimeoutId (fst (step d w e))
   \<and> (\<forall>t\<in>set (timers (fst (step d w e))). timeoutId t < nextTimeoutId (fst (step d w e))
          \<or> t \<in> set (timers w))"
proof (cases e)
  case (Render p)
  show ?thesis
  proof (cases "component w")
    case None
    then show ?thesis using Render
      by (auto simp: mount_window errorTimerEffect_eq)
  next
    case (Some h)
    then show ?thesis using Render
      by (auto simp: update_window errorTimerEffect_eq errorTimerCleanup_fst clearTimeout_def
          split: option.splits)
  qed
next
  case (Press i)
  then show ?thesis by (cases "component w") auto
next
  case (TimerFires i)
  then show ?thesis by (auto simp: fire_def clearTimeout_def split: option.splits)
next
  case (Elapse ms)
  then show ?thesis by auto
next
  case Unmount
  then show ?thesis
    by (cases "component w")
      (auto simp: unmount_eq errorTimerCleanup_fst clearTimeout_def split: option.splits)
qed

lemma handed_out_step: "handed_out w \<Longrightarrow> handed_out (fst (step d w e))"
  using step_timers [of d w e] by (fastforce simp: handed_out_def list_all_iff)

lemma spent_step: "spent i w \<Longrightarrow> spent i (fst (step d w e))"
  using step_timers [of d w e] by (fastforce simp: spent_def find_None_iff)

lemma fst_run_Cons: "fst (run d w (e # es)) = fst (run d (fst (step d w e)) es)"
  by (simp add: split_beta)

lemma handed_out_run: "handed_out w \<Longrightarrow> handed_out (fst (run d w es))"
proof (induction es arbitrary: w)
  case Nil
  then show ?case by simp
next
  case (Cons e es)
  show ?case
    unfolding fst_run_Cons using Cons.prems by (intro Cons.IH handed_out_step)
qed

lemma spent_run: "spent i w \<Longrightarrow> spent i (fst (run d w es))"
proof (induction es arbitrary: w)
  case Nil
  then show ?case by simp
next
  case (Cons e es)
  show ?case
    unfolding fst_run_Cons using Cons.prems by (intro Cons.IH spent_step)
qed

lemma handed_out_page: "handed_out page"
  by (simp add: handed_out_def page_def)

lemma after_handed_out: "handed_out (after d es)"
  unfolding after_def using handed_out_page by (rule handed_out_run)

lemma spent_silent: "spent i w \<Longrightarrow> step d w (TimerFires i) = (w, [])"
  by (simp add: spent_def fire_def)

lemma fired_spent:
  assumes "handed_out w" "find (\<lambda>t. timeoutId t = i) (timers w) = Some t"
    "armedAt t + delay t \<le> now w"
  shows "spent i (fst (step d w (TimerFires i)))"
proof -
  have "t \<in> set (timers w)" "timeoutId t = i"
    using assms(2) by (auto simp: find_Some_iff)
  then have "i < nextTimeoutId w"
    using assms(1) by (auto simp: handed_out_def list_all_iff)
  then show ?thesis
    using assms(2,3) by (simp add: fire_def clearTimeout_def spent_def find_None_iff)
qed

lemma cleared_spent:
  assumes "handed_out w" "timers_ok w" "component w = Some h"
    "errorTimerDeps p \<noteq> errorTimerDeps (rendered h)" "t \<in> set (timers w)"
  shows "spent (timeoutId t) (fst (step d w (Render p)))"
proof -
  have less: "timeoutId t < nextTimeoutId w"
    using assms(1,5) by (auto simp: handed_out_def list_all_iff)
  show ?thesis
    using less assms(3,4) cleanup_clears [OF assms(2,3)] cleanup_keeps [of w "timerCleanup h"]
    by (simp add: update_window errorTimerEffect_eq spent_def)
qed

lemma unmounted_spent:
  assumes "handed_out w" "timers_ok w" "component w = Some h" "t \<in> set (timers w)"
  shows "spent (timeoutId t) (fst (step d w Unmount))"
proof -
  have less: "timeoutId t < nextTimeoutId w"
    using assms(1,4) by (auto simp: handed_out_def list_all_iff)
  show ?thesis
    using less assms(3) cleanup_clears [OF assms(2,3)] cleanup_keeps [of w "timerCleanup h"]
    by (simp add: unmount_eq spent_def)
qed

subsection \<open>C1: one submission per completed buffer\<close>

text \<open>
  C1. For every run of digit presses that reach \<open>handleClick\<close>, each of one character
  as the buttons of the grid pass them, the \<open>onSubmit\<close> calls are exactly the buffers
  that a press has taken from length \<open>N - 1\<close> to length \<open>N\<close>, one call for each, in
  order, on the caller's \<open>onSubmit\<close>; each is a string of \<open>N\<close> characters; and a render,
  the first or a later one, on a full buffer or any other, never calls \<open>onSubmit\<close>.
\<close>

theorem onSubmit_once_per_completed_buffer:
  assumes "\<forall>c\<in>set chars. length c = 1"
  shows "filter isOnSubmit (presses p chars) =
           map (OnSubmit (onSubmit p)) (completed_buffers (length_of p) (value_p p) chars)
         \<and> (\<forall>b\<in>set (completed_buffers (length_of p) (value_p p) chars).
               real (length b) = length_of p)
         \<and> filter isOnSubmit (snd (step d w (Render q))) = []"
  using assms presses_submits completed_buffers_full render_no_submit by blast

theorem onSubmit_once_per_completed_buffer_witness:
  "list_all (\<lambda>c. length c = 1) [''7'', ''3'', ''9'', ''1'', ''4'', ''0'', ''2'', ''8'']
   \<and> filter isOnSubmit
       (presses plain [''7'', ''3'', ''9'', ''1'', ''4'', ''0'', ''2'', ''8''])
     = [OnSubmit 3 ''7391'', OnSubmit 3 ''4028'']
   \<and> filter isOnSubmit
       (snd (step False (fst (step False page (Render (plain\<lparr>value_p := ''1234''\<rparr>))))
          (Render (plain\<lparr>value_p := ''1234''\<rparr>)))) = []"
  using onSubmit_once_per_completed_buffer
    [of "[''7'', ''3'', ''9'', ''1'', ''4'', ''0'', ''2'', ''8'']" plain False
        "fst (step False page (Render (plain\<lparr>value_p := ''1234''\<rparr>)))"
        "plain\<lparr>value_p := ''1234''\<rparr>"]
  by (simp add: length_of_def DEFAULT_PIN_LENGTH_def)

subsection \<open>Evaluating the examples\<close>

lemmas evaluate = after_def page_def mount_def update_def unmount_def fire_def Let_def
  acceptedEffect_def acceptedDeps_def scrollPatchEffect_def errorTimerEffect_def
  errorTimerCleanup_def errorTimerDeps_def errorTimerCallback_def swipeEffect_def
  swipeCleanup_run_def setTimeout_def clearTimeout_def truthy_def length_of_def
  resetStateDelayMs_of_def DEFAULT_PIN_LENGTH_def RESET_STATE_DELAY_MS_def
  onClearError_opt_def timerCalls_def handleClick_def handleBackspaceClick_def
  buffer_after_def grid_def digitButton_def arePinButtonsDisabled_def isSuccess_def
  canRenderBackspace_def pressAt_def invoke_def

subsection \<open>C2: the buffer stays within the configured length\<close>




subsection \<open>C3: one error timer at a time\<close>

text \<open>
  C3, as the spec states it, fails twice. The configured length is among the
  dependencies of the effect, so a render in which \<open>type\<close> stays \<open>error\<close> and the
  buffer length, \<open>onChange\<close>, \<open>onClearError\<close> and the delay are what they were, but
  \<open>length\<close> is 5 instead of 4, clears the timer and arms another. And auto-clears do
  fire twice in one error episode: the first timer empties the full buffer, the caller
  renders the empty buffer with \<open>type\<close> still \<open>error\<close>, the buffer length has changed,
  a second timer is armed, and it fires too.
\<close>

theorem error_timer_rearmed_and_fires_again:
  "component (after False [Render wrong]) = Some wrong_hooks
   \<and> type_p (rendered wrong_hooks) = Some Error
   \<and> type_p (wrong\<lparr>length_p := Some 5\<rparr>) = Some Error
   \<and> length (value_p (wrong\<lparr>length_p := Some 5\<rparr>)) = length (value_p (rendered wrong_hooks))
   \<and> onChange (wrong\<lparr>length_p := Some 5\<rparr>) = onChange (rendered wrong_hooks)
   \<and> onClearError (wrong\<lparr>length_p := Some 5\<rparr>) = onClearError (rendered wrong_hooks)
   \<and> resetStateDelayMs_of (wrong\<lparr>length_p := Some 5\<rparr>)
       = resetStateDelayMs_of (rendered wrong_hooks)
   \<and> timerCalls (snd (step False (after False [Render wrong])
         (Render (wrong\<lparr>length_p := Some 5\<rparr>))))
       = [ClearTimeout 0, SetTimeout 1 1500]
   \<and> type_p (wrong\<lparr>value_p := []\<rparr>) = Some Error
   \<and> snd (run False page
        [Render wrong, Elapse 1500, TimerFires 0,
         Render (wrong\<lparr>value_p := []\<rparr>), Elapse 1500, TimerFires 1])
       = [SetTimeout 0 1500, VibrateOnError, OnChange 1 [], OnClearError 2,
          ClearTimeout 0, SetTimeout 1 1500, VibrateOnError, OnClearError 2]"
  by (simp add: evaluate)

text \<open>
  C3, amended. On every reachable page at most one error timer is armed. A render in
  which \<open>type\<close> stays \<open>error\<close> and the buffer length, the configured length,
  \<open>onChange\<close>, \<open>onClearError\<close> and the delay are those of the render before sets and
  clears no timer and leaves the armed one as it is. A render in which one of the
  dependencies of the effect differs first clears the timer of the cleanup, which is the
  armed one if one is armed, and only then arms a new one, if \<open>type\<close> is \<open>error\<close>; at
  most one timer is armed afterwards, and the id of the one armed before is spent. So is
  the id of a timer that has fired, and of the armed one when the component unmounts.
  A spent id stays spent whatever happens next, and the browser running it calls
  nothing: every timer armed fires at most once, and not at all once cleared.
\<close>

theorem error_timer_single:
  "length (timers (after d es)) \<le> 1
   \<and> (component (after d es) = Some h \<longrightarrow>
        type_p (rendered h) = Some Error \<longrightarrow> type_p p = Some Error \<longrightarrow>
        length (value_p p) = length (value_p (rendered h)) \<longrightarrow>
        length_of p = length_of (rendered h) \<longrightarrow>
        onChange p = onChange (rendered h) \<longrightarrow>
        onClearError p = onClearError (rendered h) \<longrightarrow>
        resetStateDelayMs_of p = resetStateDelayMs_of (rendered h) \<longrightarrow>
          timerCalls (snd (step d (after d es) (Render p))) = []
          \<and> timers (fst (step d (after d es) (Render p))) = timers (after d es))
   \<and> (component (after d es) = Some h \<longrightarrow>
        errorTimerDeps p \<noteq> errorTimerDeps (rendered h) \<longrightarrow>
          timerCalls (snd (step d (after d es) (Render p))) =
            (case timerCleanup h of None \<Rightarrow> [] | Some i \<Rightarrow> [ClearTimeout i]) @
            (if type_p p = Some Error
             then [SetTimeout (nextTimeoutId (after d es)) (resetStateDelayMs_of p)] else [])
          \<and> (\<forall>t\<in>set (timers (after d es)). timerCleanup h = Some (timeoutId t))
          \<and> length (timers (fst (step d (after d es) (Render p)))) \<le> 1
          \<and> (\<forall>t\<in>set (timers (after d es)).
                spent (timeoutId t) (fst (step d (after d es) (Render p)))))
   \<and> (find (\<lambda>t. timeoutId t = i) (timers (after d es)) = Some t \<longrightarrow>
        armedAt t + delay t \<le> now (after d es) \<longrightarrow>
          spent i (fst (step d (after d es) (TimerFires i))))
   \<and> (component (after d es) = Some h \<longrightarrow>
        (\<forall>t\<in>set (timers (after d es)).
           spent (timeoutId t) (fst (step d (after d es) Unmount))))
   \<and> (spent i w \<longrightarrow>
        spent i (fst (run d w es'))
        \<and> step d (fst (run d w es')) (TimerFires i) = (fst (run d w es'), []))"
proof (intro conjI impI)
  show "length (timers (after d es)) \<le> 1"
    using after_ok by (rule timers_at_most_one)
next
  assume h: "component (after d es) = Some h"
    and "type_p (rendered h) = Some Error" "type_p p = Some Error"
    "length (value_p p) = length (value_p (rendered h))"
    "length_of p = length_of (rendered h)"
    "onChange p = onChange (rendered h)"
    "onClearError p = onClearError (rendered h)"
    "resetStateDelayMs_of p = resetStateDelayMs_of (rendered h)"
  then have same: "errorTimerDeps p = errorTimerDeps (rendered h)"
    by (simp add: errorTimerDeps_def)
  show "timerCalls (snd (step d (after d es) (Render p))) = []"
    using same_deps_no_timer [OF h same] by simp
  show "timers (fst (step d (after d es) (Render p))) = timers (after d es)"
    using same_deps_no_timer [OF h same] by simp
next
  assume h: "component (after d es) = Some h"
    and changed: "errorTimerDeps p \<noteq> errorTimerDeps (rendered h)"
  show "timerCalls (snd (step d (after d es) (Render p))) =
          (case timerCleanup h of None \<Rightarrow> [] | Some i \<Rightarrow> [ClearTimeout i]) @
          (if type_p p = Some Error
           then [SetTimeout (nextTimeoutId (after d es)) (resetStateDelayMs_of p)] else [])"
    using after_ok h changed by (rule changed_deps_timer(1))
  show "\<forall>t\<in>set (timers (after d es)). timerCleanup h = Some (timeoutId t)"
    using timers_ok_cases [OF after_ok, of d es] h by auto
  show "length (timers (fst (step d (after d es) (Render p)))) \<le> 1"
    using timers_ok_step [OF after_ok] by (rule timers_at_most_one)
  show "\<forall>t\<in>set (timers (after d es)).
          spent (timeoutId t) (fst (step d (after d es) (Render p)))"
    using cleared_spent [OF after_handed_out after_ok h changed] by blast
next
  assume "find (\<lambda>t. timeoutId t = i) (timers (after d es)) = Some t"
    "armedAt t + delay t \<le> now (after d es)"
  with after_handed_out show "spent i (fst (step d (after d es) (TimerFires i)))"
    by (rule fired_spent)
next
  assume h: "component (after d es) = Some h"
  show "\<forall>t\<in>set (timers (after d es)).
          spent (timeoutId t) (fst (step d (after d es) Unmount))"
    using unmounted_spent [OF after_handed_out after_ok h] by blast
next
  assume i: "spent i w"
  then show later: "spent i (fst (run d w es'))" by (rule spent_run)
  then show "step d (fst (run d w es')) (TimerFires i) = (fst (run d w es'), [])"
    by (rule spent_silent)
qed

theorem error_timer_single_witness:
  "component (after False [Render wrong]) = Some wrong_hooks
   \<and> length (timers (after False [Render wrong])) = 1
   \<and> type_p (rendered wrong_hooks) = Some Error
   \<and> type_p (wrong\<lparr>isActive := Some True\<rparr>) = Some Error
   \<and> errorTimerDeps (wrong\<lparr>isActive := Some True\<rparr>) = errorTimerDeps (rendered wrong_hooks)
   \<and> snd (step False (after False [Render wrong]) (Render (wrong\<lparr>isActive := Some True\<rparr>)))
       = [DisableSwipeToClose]
   \<and> timers (fst (step False (after False [Render wrong])
         (Render (wrong\<lparr>isActive := Some True\<rparr>))))
       = timers (after False [Render wrong])
   \<and> errorTimerDeps (wrong\<lparr>value_p := ''4''\<rparr>) \<noteq> errorTimerDeps (rendered wrong_hooks)
   \<and> timerCalls (snd (step False (after False [Render wrong])
         (Render (wrong\<lparr>value_p := ''4''\<rparr>))))
       = [ClearTimeout 0, SetTimeout 1 1500]
   \<and> length (timers (fst (step False (after False [Render wrong])
         (Render (wrong\<lparr>value_p := ''4''\<rparr>))))) = 1
   \<and> spent 0 (fst (step False (after False [Render wrong])
         (Render (wrong\<lparr>value_p := ''4''\<rparr>))))
   \<and> find (\<lambda>t. timeoutId t = 0) (timers (after False [Render wrong, Elapse 1500]))
       = Some \<lparr>timeoutId = 0, armedAt = 0, delay = 1500, closure = wrong\<rparr>
   \<and> spent 0 (fst (step False (after False [Render wrong, Elapse 1500]) (TimerFires 0)))
   \<and> snd (step False
         (fst (run False (fst (step False (after False [Render wrong, Elapse 1500])
                  (TimerFires 0)))
            [Render (wrong\<lparr>value_p := []\<rparr>), Elapse 1500]))
         (TimerFires 0)) = []"
proof -
  let ?w = "after False [Render wrong]"
  let ?fired = "fst (step False (after False [Render wrong, Elapse 1500]) (TimerFires 0))"
  have one: "length (timers ?w) \<le> 1"
    using error_timer_single [where d = False and es = "[Render wrong]"] by (rule conjunct1)
  have spent: "spent 0 ?fired"
    by (simp add: evaluate spent_def)
  note last = error_timer_single
      [where i = 0 and w = ?fired and d = False
         and es' = "[Render (wrong\<lparr>value_p := []\<rparr>), Elapse 1500]",
       THEN conjunct2, THEN conjunct2, THEN conjunct2, THEN conjunct2, THEN conjunct2]
  have "step False
         (fst (run False ?fired [Render (wrong\<lparr>value_p := []\<rparr>), Elapse 1500]))
         (TimerFires 0)
        = (fst (run False ?fired [Render (wrong\<lparr>value_p := []\<rparr>), Elapse 1500]), [])"
    using last [THEN mp, OF spent] by (rule conjunct2)
  then have quiet: "snd (step False
         (fst (run False ?fired [Render (wrong\<lparr>value_p := []\<rparr>), Elapse 1500]))
         (TimerFires 0)) = []"
    by (simp only: snd_conv)
  show ?thesis
    using one quiet by (simp add: evaluate spent_def)
qed

subsection \<open>C4: the timer fires\<close>

text \<open>
  C4. A timer that is armed on a reachable page was armed in Error mode (\<open>type\<close> is
  \<open>error\<close> in the last render) for the \<open>resetStateDelayMs\<close> of the last render. It does
  nothing before that delay has passed since it was armed. When it fires then, it
  requests the empty buffer if the buffer length of the last render is the configured
  length and requests no buffer otherwise, then calls the caller's \<open>onClearError\<close> once,
  if the caller passed one, and calls nothing else; no timer is armed afterwards.
\<close>

theorem error_timer_fires:
  "component (after d es) = Some h \<longrightarrow>
   find (\<lambda>t. timeoutId t = i) (timers (after d es)) = Some t \<longrightarrow>
     type_p (rendered h) = Some Error
     \<and> delay t = resetStateDelayMs_of (rendered h)
     \<and> step d (after d es) (TimerFires i) =
         (if armedAt t + delay t \<le> now (after d es)
          then ((after d es)\<lparr>timers := []\<rparr>,
                (if real (length (value_p (rendered h))) = length_of (rendered h)
                 then [OnChange (onChange (rendered h)) ''''] else []) @
                (case onClearError (rendered h) of
                   None \<Rightarrow> [] | Some f \<Rightarrow> [OnClearError f]))
          else (after d es, []))"
proof (intro impI)
  assume h: "component (after d es) = Some h"
    and t: "find (\<lambda>t. timeoutId t = i) (timers (after d es)) = Some t"
  note ok = fire_ok [OF after_ok h t]
  show "type_p (rendered h) = Some Error
     \<and> delay t = resetStateDelayMs_of (rendered h)
     \<and> step d (after d es) (TimerFires i) =
         (if armedAt t + delay t \<le> now (after d es)
          then ((after d es)\<lparr>timers := []\<rparr>,
                (if real (length (value_p (rendered h))) = length_of (rendered h)
                 then [OnChange (onChange (rendered h)) ''''] else []) @
                (case onClearError (rendered h) of
                   None \<Rightarrow> [] | Some f \<Rightarrow> [OnClearError f]))
          else (after d es, []))"
    using ok t
    by (simp add: fire_def clearTimeout_def errorTimerCallback_def onClearError_opt_def)
qed

theorem error_timer_fires_witness:
  "component (after False [Render wrong, Elapse 1500]) = Some wrong_hooks
   \<and> find (\<lambda>t. timeoutId t = 0) (timers (after False [Render wrong, Elapse 1500]))
       = Some \<lparr>timeoutId = 0, armedAt = 0, delay = 1500, closure = wrong\<rparr>
   \<and> snd (step False (after False [Render wrong, Elapse 1500]) (TimerFires 0))
       = [OnChange 1 [], OnClearError 2]
   \<and> timers (fst (step False (after False [Render wrong, Elapse 1500]) (TimerFires 0))) = []
   \<and> component (after False [Render wrong, Elapse 1499]) = Some wrong_hooks
   \<and> find (\<lambda>t. timeoutId t = 0) (timers (after False [Render wrong, Elapse 1499]))
       = Some \<lparr>timeoutId = 0, armedAt = 0, delay = 1500, closure = wrong\<rparr>
   \<and> snd (step False (after False [Render wrong, Elapse 1499]) (TimerFires 0)) = []"
  using error_timer_fires
      [where d = False and es = "[Render wrong, Elapse 1500]" and h = wrong_hooks and i = 0
         and t = "\<lparr>timeoutId = 0, armedAt = 0, delay = 1500, closure = wrong\<rparr>"]
    error_timer_fires
      [where d = False and es = "[Render wrong, Elapse 1499]" and h = wrong_hooks and i = 0
         and t = "\<lparr>timeoutId = 0, armedAt = 0, delay = 1500, closure = wrong\<rparr>"]
  by (simp add: evaluate)

subsection \<open>C5: losing the accepted flag\<close>

text \<open>
  C5. In a render in which the accepted flag is not true after a render in which it
  was true, the component requests the empty buffer if the buffer length is the
  configured length, and requests no buffer otherwise; these are all the \<open>onChange\<close>
  calls of the render, so the caller's buffer is empty afterwards in the first case and
  what it was in the second.
\<close>

theorem accepted_lost_clears_full_buffer:
  "component w = Some h \<longrightarrow> isPinAccepted (rendered h) = Some True \<longrightarrow>
   isPinAccepted p \<noteq> Some True \<longrightarrow>
     filter isOnChange (snd (step d w (Render p))) =
       (if real (length (value_p p)) = length_of p then [OnChange (onChange p) ''''] else [])
     \<and> buffer_after (value_p p) (snd (step d w (Render p))) =
       (if real (length (value_p p)) = length_of p then '''' else value_p p)"
proof (intro impI)
  assume h: "component w = Some h" and was: "isPinAccepted (rendered h) = Some True"
    and lost: "isPinAccepted p \<noteq> Some True"
  have edge: "acceptedDeps (isPinAccepted (rendered h)) p
                \<noteq> acceptedDeps (prevIsPinAccepted h) (rendered h)"
    using was lost by (simp add: acceptedDeps_def)
  have calls: "filter isOnChange (snd (step d w (Render p))) =
       (if real (length (value_p p)) = length_of p then [OnChange (onChange p) ''''] else [])"
    using h was lost edge
    by (auto simp: update_calls acceptedEffect_def truthy_def scrollPatchEffect_def
        swipeEffect_def swipeCleanup_run_def errorTimerEffect_calls errorTimerCleanup_calls
        split: option.splits)
  have "buffer_after (value_p p) (snd (step d w (Render p))) =
          buffer_after (value_p p) (filter isOnChange (snd (step d w (Render p))))"
    by (rule buffer_after_requests)
  then show "filter isOnChange (snd (step d w (Render p))) =
       (if real (length (value_p p)) = length_of p then [OnChange (onChange p) ''''] else [])
     \<and> buffer_after (value_p p) (snd (step d w (Render p))) =
       (if real (length (value_p p)) = length_of p then '''' else value_p p)"
    using calls by (simp add: buffer_after_def)
qed

theorem accepted_lost_clears_full_buffer_witness:
  "component (after False [Render (plain\<lparr>value_p := ''7391'', isPinAccepted := Some True\<rparr>)])
     = Some \<lparr>rendered = plain\<lparr>value_p := ''7391'', isPinAccepted := Some True\<rparr>,
             prevIsPinAccepted = None, timerCleanup = None, swipeCleanup = False\<rparr>
   \<and> snd (step False
         (after False [Render (plain\<lparr>value_p := ''7391'', isPinAccepted := Some True\<rparr>)])
         (Render (plain\<lparr>value_p := ''7391'', isPinAccepted := Some False\<rparr>)))
       = [OnChange 1 []]
   \<and> snd (step False
         (after False [Render (plain\<lparr>value_p := ''73'', isPinAccepted := Some True\<rparr>)])
         (Render (plain\<lparr>value_p := ''73''\<rparr>)))
       = []"
  using accepted_lost_clears_full_buffer
      [where d = False
         and w = "after False [Render (plain\<lparr>value_p := ''7391'', isPinAccepted := Some True\<rparr>)]"
         and h = "\<lparr>rendered = plain\<lparr>value_p := ''7391'', isPinAccepted := Some True\<rparr>,
             prevIsPinAccepted = None, timerCleanup = None, swipeCleanup = False\<rparr>"
         and p = "plain\<lparr>value_p := ''7391'', isPinAccepted := Some False\<rparr>"]
  by (simp add: evaluate)

subsection \<open>C6: Success mode takes no input\<close>

text \<open>
  C6. When \<open>type\<close> is \<open>success\<close> or the accepted flag is true, every button of the
  grid, the ten digits, backspace and the biometric button if there is one, is
  rendered disabled; a press on any cell of the grid then calls nothing, so it requests
  no buffer and does not reach \<open>onBiometricsClick\<close>, and leaves the page as it is.
\<close>

theorem success_disables_input:
  "type_p p = Some Success \<or> isPinAccepted p = Some True \<longrightarrow>
     (\<forall>c\<in>set (grid p). c = Span \<or> isDisabled c)
     \<and> length (filter isDisabled (grid p)) = (if onBiometricsClick p = None then 11 else 12)
     \<and> pressAt p i = []
     \<and> (component w = Some h \<longrightarrow> rendered h = p \<longrightarrow> step d w (Press i) = (w, []))"
proof (intro impI)
  assume "type_p p = Some Success \<or> isPinAccepted p = Some True"
  then have success: "isSuccess p" by (simp add: isSuccess_def truthy_def)
  have cells: "\<forall>c\<in>set (grid p). c = Span \<or> isDisabled c"
    using success
    by (simp add: grid_def digitButton_def arePinButtonsDisabled_def split: option.splits)
  have count: "length (filter isDisabled (grid p)) =
                 (if onBiometricsClick p = None then 11 else 12)"
    using success
    by (simp add: grid_def digitButton_def arePinButtonsDisabled_def split: option.splits)
  have quiet: "pressAt p i = []"
  proof (cases "i < length (grid p)")
    case True
    then have "grid p ! i = Span \<or> isDisabled (grid p ! i)" using cells by simp
    then have "press p (grid p ! i) = []" by (cases "grid p ! i") auto
    then show ?thesis by (simp add: pressAt_def)
  next
    case False
    then show ?thesis by (simp add: pressAt_def)
  qed
  show "(\<forall>c\<in>set (grid p). c = Span \<or> isDisabled c)
     \<and> length (filter isDisabled (grid p)) = (if onBiometricsClick p = None then 11 else 12)
     \<and> pressAt p i = []
     \<and> (component w = Some h \<longrightarrow> rendered h = p \<longrightarrow> step d w (Press i) = (w, []))"
    using cells count quiet by simp
qed

theorem success_disables_input_witness:
  "isPinAccepted (plain\<lparr>value_p := ''73'', isPinAccepted := Some True,
       onBiometricsClick := Some 4\<rparr>) = Some True
   \<and> map isDisabled (grid (plain\<lparr>value_p := ''73'', isPinAccepted := Some True,
       onBiometricsClick := Some 4\<rparr>)) = replicate 12 True
   \<and> pressAt (plain\<lparr>value_p := ''73'', isPinAccepted := Some True,
       onBiometricsClick := Some 4\<rparr>) 11 = []
   \<and> pressAt (plain\<lparr>value_p := ''73'', onBiometricsClick := Some 4\<rparr>) 11
       = [OnClearError 2, OnChange 1 ''7'']"
  using success_disables_input
      [where p = "plain\<lparr>value_p := ''73'', isPinAccepted := Some True,
         onBiometricsClick := Some 4\<rparr>" and i = 11]
  by (simp add: evaluate numeral_eq_Suc)

subsection \<open>C7: unmounting\<close>

text \<open>
  C7. Unmounting the component from a reachable page calls \<open>clearIsPinAccepted\<close> exactly
  once and clears every armed timer; it calls neither \<open>onChange\<close> nor \<open>onClearError\<close>; no
  timer is armed afterwards, and whatever happens then short of mounting the component
  again, timers coming due and time passing among it, calls nothing at all.
\<close>

theorem unmount_cancels_and_clears:
  "component (after d es) = Some h \<longrightarrow>
     count_list (snd (step d (after d es) Unmount)) ClearIsPinAccepted = 1
     \<and> (\<forall>t\<in>set (timers (after d es)).
           ClearTimeout (timeoutId t) \<in> set (snd (step d (after d es) Unmount)))
     \<and> timers (fst (step d (after d es) Unmount)) = []
     \<and> filter isOnChange (snd (step d (after d es) Unmount)) = []
     \<and> filter isOnClearError (snd (step d (after d es) Unmount)) = []
     \<and> (list_all (\<lambda>e. \<not> isRender e) es' \<longrightarrow>
          snd (run d (fst (step d (after d es) Unmount)) es') = [])"
proof (intro impI conjI)
  assume h: "component (after d es) = Some h"
  let ?w = "after d es"
  have gone: "timers (fst (step d ?w Unmount)) = []"
    using h cleanup_clears [OF after_ok h] by (simp add: unmount_eq)
  have none: "component (fst (step d ?w Unmount)) = None"
    using h by (simp add: unmount_eq)
  show "count_list (snd (step d ?w Unmount)) ClearIsPinAccepted = 1"
    using h by (simp add: unmount_eq swipeCleanup_run_def split: option.splits)
  show "\<forall>t\<in>set (timers ?w). ClearTimeout (timeoutId t) \<in> set (snd (step d ?w Unmount))"
    using h timers_ok_cases [OF after_ok, of d es] by (auto simp: unmount_eq)
  show "timers (fst (step d ?w Unmount)) = []" by (rule gone)
  show "filter isOnChange (snd (step d ?w Unmount)) = []"
    using h by (simp add: unmount_eq swipeCleanup_run_def split: option.splits)
  show "filter isOnClearError (snd (step d ?w Unmount)) = []"
    using h by (simp add: unmount_eq swipeCleanup_run_def split: option.splits)
  assume "list_all (\<lambda>e. \<not> isRender e) es'"
  with gone none show "snd (run d (fst (step d ?w Unmount)) es') = []"
    by (rule quiet_run)
qed

theorem unmount_cancels_and_clears_witness:
  "component (after False [Render wrong]) = Some wrong_hooks
   \<and> timers (after False [Render wrong])
       = [\<lparr>timeoutId = 0, armedAt = 0, delay = 1500, closure = wrong\<rparr>]
   \<and> snd (step False (after False [Render wrong]) Unmount)
       = [ClearIsPinAccepted, ClearTimeout 0]
   \<and> list_all (\<lambda>e. \<not> isRender e) [Elapse 1500, TimerFires 0, Press 0]
   \<and> snd (run False (fst (step False (after False [Render wrong]) Unmount))
         [Elapse 1500, TimerFires 0, Press 0]) = []"
  using unmount_cancels_and_clears
      [where d = False and es = "[Render wrong]" and h = wrong_hooks
         and es' = "[Elapse 1500, TimerFires 0, Press 0]"]
  by (simp add: evaluate)

subsection \<open>C8: backspace on an empty buffer\<close>

text \<open>
  C8. While the buffer is empty, in Normal mode as in any other, the backspace button,
  the only cell of the grid whose \<open>onClick\<close> is \<open>handleBackspaceClick\<close>, is rendered
  disabled; a press on it calls nothing, so no caller callback is invoked and the buffer
  is left unchanged, and the page is what it was.
\<close>

theorem backspace_on_empty_buffer:
  "value_p p = [] \<longrightarrow>
     grid p ! 11 = PinPadButton None HandleBackspaceClick True
     \<and> (\<forall>c\<in>set (grid p). \<forall>v b. c = PinPadButton v HandleBackspaceClick b \<longrightarrow>
           c = grid p ! 11)
     \<and> pressAt p 11 = []
     \<and> buffer_after (value_p p) (pressAt p 11) = value_p p
     \<and> (component w = Some h \<longrightarrow> rendered h = p \<longrightarrow> step d w (Press 11) = (w, []))"
  by (simp add: buffer_after_def grid_def digitButton_def canRenderBackspace_def
      pressAt_def numeral_eq_Suc split: option.splits)

theorem backspace_on_empty_buffer_witness:
  "value_p plain = [] \<and> type_p plain = None \<and> isPinAccepted plain = None
   \<and> component (after False [Render plain])
       = Some \<lparr>rendered = plain, prevIsPinAccepted = None, timerCleanup = None,
               swipeCleanup = False\<rparr>
   \<and> pressAt plain 11 = []
   \<and> step False (after False [Render plain]) (Press 11) = (after False [Render plain], [])
   \<and> pressAt (plain\<lparr>value_p := ''7''\<rparr>) 11 = [OnClearError 2, OnChange 1 []]"
  using backspace_on_empty_buffer
      [where p = plain and d = False and w = "after False [Render plain]"
         and h = "\<lparr>rendered = plain, prevIsPinAccepted = None, timerCleanup = None,
               swipeCleanup = False\<rparr>"]
  by (simp add: evaluate numeral_eq_Suc)

subsection \<open>C9: entering Error mode\<close>




subsection \<open>C10: the digit buttons on a full buffer\<close>

text \<open>
  C10. When the buffer is full and \<open>type\<close> is not \<open>error\<close>, or \<open>type\<close> is \<open>success\<close>,
  or the accepted flag is true, the grid has ten digit buttons and each is disabled, so
  a press on it calls nothing. Hence, on a full buffer, a digit button that is enabled,
  the only way from the grid into the branch of \<open>handleClick\<close> that replaces the buffer,
  is rendered only while \<open>type\<close> is \<open>error\<close> and the accepted flag is not true; pressed
  there, it requests the buffer that holds its digit alone.
\<close>

theorem digit_buttons_disabled_unless_error:
  "((real (length (value_p p)) = length_of p \<and> type_p p \<noteq> Some Error)
      \<or> type_p p = Some Success \<or> isPinAccepted p = Some True \<longrightarrow>
        length (filter isDigitButton (grid p)) = 10
        \<and> (\<forall>c\<in>set (grid p). isDigitButton c \<longrightarrow> isDisabled c \<and> press p c = []))
   \<and> (real (length (value_p p)) = length_of p \<longrightarrow> c \<in> set (grid p) \<longrightarrow>
        isDigitButton c \<longrightarrow> \<not> isDisabled c \<longrightarrow>
          type_p p = Some Error \<and> isPinAccepted p \<noteq> Some True
          \<and> (\<exists>v. c = PinPadButton (Some v) HandleClick False
                \<and> press p c = onClearError_opt p @ [OnChange (onChange p) v]))"
proof (intro conjI impI)
  assume "(real (length (value_p p)) = length_of p \<and> type_p p \<noteq> Some Error)
      \<or> type_p p = Some Success \<or> isPinAccepted p = Some True"
  then have off: "arePinButtonsDisabled p"
    by (auto simp: arePinButtonsDisabled_def isSuccess_def truthy_def)
  show "length (filter isDigitButton (grid p)) = 10"
    by (simp add: grid_def digitButton_def split: option.splits)
  show "\<forall>c\<in>set (grid p). isDigitButton c \<longrightarrow> isDisabled c \<and> press p c = []"
    using off by (simp add: grid_def digitButton_def split: option.splits)
next
  assume full: "real (length (value_p p)) = length_of p" and c: "c \<in> set (grid p)"
    and digit: "isDigitButton c" and on: "\<not> isDisabled c"
  from c digit obtain v where v: "c = PinPadButton (Some v) HandleClick (arePinButtonsDisabled p)"
    by (auto simp: grid_def digitButton_def split: option.splits)
  with on have enabled: "\<not> arePinButtonsDisabled p" by simp
  show "type_p p = Some Error"
    using enabled full by (simp add: arePinButtonsDisabled_def)
  show "isPinAccepted p \<noteq> Some True"
    using enabled by (simp add: arePinButtonsDisabled_def isSuccess_def truthy_def)
  show "\<exists>v. c = PinPadButton (Some v) HandleClick False
          \<and> press p c = onClearError_opt p @ [OnChange (onChange p) v]"
    using v enabled full by (simp add: invoke_def handleClick_full)
qed

theorem digit_buttons_disabled_unless_error_witness:
  "real (length (value_p (plain\<lparr>value_p := ''7391''\<rparr>))) = length_of (plain\<lparr>value_p := ''7391''\<rparr>)
   \<and> type_p (plain\<lparr>value_p := ''7391''\<rparr>) \<noteq> Some Error
   \<and> map isDisabled (filter isDigitButton (grid (plain\<lparr>value_p := ''7391''\<rparr>)))
       = replicate 10 True
   \<and> pressAt (plain\<lparr>value_p := ''7391''\<rparr>) 3 = []
   \<and> real (length (value_p wrong)) = length_of wrong
   \<and> list_ex (\<lambda>c. c = PinPadButton (Some ''4'') HandleClick False) (grid wrong)
   \<and> isDigitButton (PinPadButton (Some ''4'') HandleClick False)
   \<and> \<not> isDisabled (PinPadButton (Some ''4'') HandleClick False)
   \<and> type_p wrong = Some Error
   \<and> pressAt wrong 3 = [OnClearError 2, OnChange 1 ''4'']"
  using digit_buttons_disabled_unless_error [where p = "plain\<lparr>value_p := ''7391''\<rparr>"]
    digit_buttons_disabled_unless_error
      [where p = wrong and c = "PinPadButton (Some ''4'') HandleClick False"]
  by (simp add: evaluate numeral_eq_Suc)

end
